theory Spec2Isabelle
  imports Complex_Main "HOL-Library.Sublist"
begin

section \<open>Text model\<close>

text \<open>
  A Python \<open>str\<close> is a sequence of code points. The model covers the code points
  below 256, which are exactly the values of \<^typ>\<open>char\<close>; \<open>of_char c\<close> is the code
  point. The character classes below are those of Python (the Unicode database)
  on that range. Python floats are modelled by exact real arithmetic: rounding is
  outside the model.
\<close>

datatype py_error = ZeroDivisionError

definition py_truediv :: "real \<Rightarrow> real \<Rightarrow> py_error + real" where
  \<comment> \<open>Python's \<open>a / b\<close>\<close>
  "py_truediv a b = (if b = 0 then Inl ZeroDivisionError else Inr (a / b))"

definition char_isupper :: "char \<Rightarrow> bool" where
  \<comment> \<open>\<open>str.isupper\<close> on a code point below 256: A-Z, U+00C0-U+00D6, U+00D8-U+00DE; these are
      the code points below 256 that \<open>str.lower\<close> changes\<close>
  "char_isupper c =
     (let n = (of_char c :: nat)
      in (65 \<le> n \<and> n \<le> 90) \<or> (192 \<le> n \<and> n \<le> 214) \<or> (216 \<le> n \<and> n \<le> 222))"

definition char_lower :: "char \<Rightarrow> char" where
  "char_lower c = (if char_isupper c then char_of ((of_char c :: nat) + 32) else c)"

definition char_isalpha :: "char \<Rightarrow> bool" where
  \<comment> \<open>Unicode letters below 256: A-Z, a-z, U+00AA, U+00B5, U+00BA, U+00C0-U+00D6,
      U+00D8-U+00F6, U+00F8-U+00FF\<close>
  "char_isalpha c =
     (let n = (of_char c :: nat)
      in (65 \<le> n \<and> n \<le> 90) \<or> (97 \<le> n \<and> n \<le> 122) \<or> n = 170 \<or> n = 181 \<or> n = 186 \<or>
         (192 \<le> n \<and> n \<le> 214) \<or> (216 \<le> n \<and> n \<le> 246) \<or> (248 \<le> n \<and> n \<le> 255))"

definition is_word_char :: "char \<Rightarrow> bool" where
  \<comment> \<open>the regular expression class \<open>\w\<close>: alphanumeric (letters, 0-9, U+00B2, U+00B3,
      U+00B9, U+00BC-U+00BE) or the underscore\<close>
  "is_word_char c =
     (let n = (of_char c :: nat)
      in char_isalpha c \<or> (48 \<le> n \<and> n \<le> 57) \<or> n = 178 \<or> n = 179 \<or> n = 185 \<or>
         (188 \<le> n \<and> n \<le> 190) \<or> n = 95)"

definition str_lower :: "string \<Rightarrow> string" where
  \<comment> \<open>\<open>text.lower()\<close>\<close>
  "str_lower s = map char_lower s"

definition str_isalpha :: "string \<Rightarrow> bool" where
  \<comment> \<open>\<open>word.isalpha()\<close>: false on the empty string\<close>
  "str_isalpha s = (s \<noteq> [] \<and> list_all char_isalpha s)"

fun str_join :: "string \<Rightarrow> string list \<Rightarrow> string" where
  \<comment> \<open>\<open>sep.join(words)\<close>\<close>
  "str_join sep [] = []"
| "str_join sep [w] = w"
| "str_join sep (w # v # ws) = w @ sep @ str_join sep (v # ws)"

definition is_vowel :: "char \<Rightarrow> bool" where
  \<comment> \<open>\<open>char in 'aeiou'\<close>, and the character class \<open>[aeiou]\<close>\<close>
  "is_vowel c = (c \<in> set ''aeiou'')"

section \<open>Tokenizer/Cleaner\<close>

text \<open>
  \<open>word_tokenize\<close> and \<open>sent_tokenize\<close> are NLTK's; they are parameters of the
  model (\<open>wt\<close> and \<open>st\<close>), total functions from a text to its tokens.
\<close>

definition clean_and_tokenize ::
  "(string \<Rightarrow> string list) \<Rightarrow> string \<Rightarrow> string set \<Rightarrow> string list" where
  "clean_and_tokenize wt text stop_words =
     (let words = wt (str_lower text)
      in [word \<leftarrow> words. str_isalpha word \<and> word \<notin> stop_words])"

text \<open>
  A tokenizer that splits a text at its spaces: an instance of the tokenizer
  parameters, for running the functions on concrete texts. It returns what
  \<open>word_tokenize\<close> returns on the empty text and on a text of words of letters with
  single spaces between them (no punctuation, no contracted form such as \<open>cannot\<close>),
  and it is applied to such texts only.
\<close>

fun split_words :: "string \<Rightarrow> string \<Rightarrow> string list" where
  "split_words cur [] = (if cur = [] then [] else [cur])"
| "split_words cur (c # cs) =
     (if c = CHR '' '' then (if cur = [] then split_words [] cs else cur # split_words [] cs)
      else split_words (cur @ [c]) cs)"

definition space_tokenize :: "string \<Rightarrow> string list" where
  "space_tokenize s = split_words [] s"

text \<open>
  The program's alphabet is Unicode, and \<open>str.lower\<close> and \<open>str.isalpha\<close> are functions of
  the Python library as \<open>word_tokenize\<close> is one of NLTK. The cleaner with all three as
  parameters, over any type of characters, is the cleaner on every alphabet;
  \<open>clean_and_tokenize\<close> is its instance on the code points below 256.
\<close>

definition clean_and_tokenize_with ::
  "('c list \<Rightarrow> 'c list) \<Rightarrow> ('c list \<Rightarrow> bool) \<Rightarrow> ('c list \<Rightarrow> 'c list list) \<Rightarrow>
     'c list \<Rightarrow> 'c list set \<Rightarrow> 'c list list" where
  "clean_and_tokenize_with lower isalpha wt text stop_words =
     (let words = wt (lower text)
      in [word \<leftarrow> words. isalpha word \<and> word \<notin> stop_words])"

text \<open>
  Unicode has uppercase letters without a lowercase form (471 letters in Unicode 14,
  none of them below 256): \<open>str.isupper\<close> and \<open>str.isalpha\<close> hold of them and
  \<open>str.lower\<close> leaves them unchanged. U+03D2, GREEK UPSILON WITH HOOK SYMBOL, is the
  first. The alphabet below is the code points below 256 together with that letter,
  with the tables of the three functions on it.
\<close>

datatype code_point = Latin1 char | Upsilon_hook

fun cp_isupper :: "code_point \<Rightarrow> bool" where
  "cp_isupper (Latin1 c) = char_isupper c"
| "cp_isupper Upsilon_hook = True"

fun cp_lower :: "code_point \<Rightarrow> code_point" where
  "cp_lower (Latin1 c) = Latin1 (char_lower c)"
| "cp_lower Upsilon_hook = Upsilon_hook"

fun cp_isalpha :: "code_point \<Rightarrow> bool" where
  "cp_isalpha (Latin1 c) = char_isalpha c"
| "cp_isalpha Upsilon_hook = True"

definition ustr_lower :: "code_point list \<Rightarrow> code_point list" where
  \<comment> \<open>\<open>text.lower()\<close>\<close>
  "ustr_lower s = map cp_lower s"

definition ustr_isalpha :: "code_point list \<Rightarrow> bool" where
  \<comment> \<open>\<open>word.isalpha()\<close>\<close>
  "ustr_isalpha s = (s \<noteq> [] \<and> list_all cp_isalpha s)"

definition ustr :: "string \<Rightarrow> code_point list" where
  \<comment> \<open>a text of code points below 256\<close>
  "ustr s = map Latin1 s"

fun usplit_words :: "code_point list \<Rightarrow> code_point list \<Rightarrow> code_point list list" where
  "usplit_words cur [] = (if cur = [] then [] else [cur])"
| "usplit_words cur (c # cs) =
     (if c = Latin1 CHR '' '' then (if cur = [] then usplit_words [] cs else cur # usplit_words [] cs)
      else usplit_words (cur @ [c]) cs)"

definition uspace_tokenize :: "code_point list \<Rightarrow> code_point list list" where
  \<comment> \<open>\<open>space_tokenize\<close> on this alphabet\<close>
  "uspace_tokenize s = usplit_words [] s"

section \<open>Sentiment Scorer\<close>

definition calculate_sentiment_scores ::
  "string list \<Rightarrow> string set \<Rightarrow> string set \<Rightarrow> py_error + (int \<times> int \<times> real \<times> real)" where
  "calculate_sentiment_scores words positive_words negative_words =
     (let positive_score = (\<Sum>word \<leftarrow> [word \<leftarrow> words. word \<in> positive_words]. (1::int));
          negative_score = (\<Sum>word \<leftarrow> [word \<leftarrow> words. word \<in> negative_words]. (1::int))
      in case py_truediv (real_of_int (positive_score - negative_score))
                (real_of_int (positive_score + negative_score) + 1 / 1000000) of
           Inl e \<Rightarrow> Inl e
         | Inr polarity_score \<Rightarrow>
             (case py_truediv (real_of_int (positive_score + negative_score))
                     (real (length words) + 1 / 1000000) of
                Inl e \<Rightarrow> Inl e
              | Inr subjectivity_score \<Rightarrow>
                  Inr (positive_score, negative_score, polarity_score, subjectivity_score)))"

section \<open>Readability Scorer\<close>

definition is_complex_word :: "string \<Rightarrow> bool" where
  \<comment> \<open>\<open>len([char for char in word if char in 'aeiou']) > 2\<close>\<close>
  "is_complex_word word = (length [char \<leftarrow> word. is_vowel char] > 2)"

definition calculate_readability_scores ::
  "(string \<Rightarrow> string list) \<Rightarrow> (string \<Rightarrow> string list) \<Rightarrow> string \<Rightarrow>
     py_error + (real \<times> real \<times> real \<times> int \<times> int)" where
  "calculate_readability_scores st wt text =
     (let sentences = st text;
          words = wt text;
          num_sentences = int (length sentences);
          num_words = int (length words)
      in case (if num_sentences > 0
               then py_truediv (real_of_int num_words) (real_of_int num_sentences)
               else Inr 0) of
           Inl e \<Rightarrow> Inl e
         | Inr avg_sentence_length \<Rightarrow>
             (let complex_words = [word \<leftarrow> words. is_complex_word word]
              in case (if num_words > 0
                       then py_truediv (real (length complex_words)) (real_of_int num_words)
                       else Inr 0) of
                   Inl e \<Rightarrow> Inl e
                 | Inr percentage_complex_words \<Rightarrow>
                     (let fog_index = 4 / 10 * (avg_sentence_length + percentage_complex_words)
                      in Inr (avg_sentence_length, percentage_complex_words, fog_index,
                              int (length complex_words), num_words))))"

section \<open>Lexical Stats Scorer\<close>

text \<open>
  \<open>re.findall(r'\b(I|we|my|ours|us)\b', s, re.I)\<close>: the scan goes left to right; at each
  position the alternatives are tried in order, a match needs a word boundary before
  and after it, and the scan resumes where the match ended. The scan carries the
  character before the current position (\<open>None\<close> at the start of the text).
\<close>

definition word_boundary :: "char option \<Rightarrow> string \<Rightarrow> bool" where
  \<comment> \<open>\<open>\b\<close> between the previous character and the rest of the text\<close>
  "word_boundary prev s =
     ((case prev of None \<Rightarrow> False | Some p \<Rightarrow> is_word_char p) \<noteq>
      (case s of [] \<Rightarrow> False | c # cs \<Rightarrow> is_word_char c))"

fun match_literal :: "string \<Rightarrow> char option \<Rightarrow> string \<Rightarrow> (char option \<times> string) option" where
  \<comment> \<open>a literal, ignoring case; returns the last character read and the rest\<close>
  "match_literal [] prev s = Some (prev, s)"
| "match_literal (p # ps) prev [] = None"
| "match_literal (p # ps) prev (c # cs) =
     (if char_lower c = char_lower p then match_literal ps (Some c) cs else None)"

definition match_alternative :: "string \<Rightarrow> char option \<Rightarrow> string \<Rightarrow> (char option \<times> string) option" where
  \<comment> \<open>\<open>\b\<close>, the literal, \<open>\b\<close>\<close>
  "match_alternative p prev s =
     (if word_boundary prev s
      then (case match_literal p prev s of
              None \<Rightarrow> None
            | Some (prev', rest) \<Rightarrow> if word_boundary prev' rest then Some (prev', rest) else None)
      else None)"

fun first_alternative :: "string list \<Rightarrow> char option \<Rightarrow> string \<Rightarrow> (char option \<times> string) option" where
  "first_alternative [] prev s = None"
| "first_alternative (p # ps) prev s =
     (case match_alternative p prev s of
        Some r \<Rightarrow> Some r
      | None \<Rightarrow> first_alternative ps prev s)"

definition pronoun_alternatives :: "string list" where
  "pronoun_alternatives = [''I'', ''we'', ''my'', ''ours'', ''us'']"

lemma match_literal_length:
  "match_literal p prev s = Some (prev', rest) \<Longrightarrow> length rest + length p = length s"
  by (induction p prev s rule: match_literal.induct) (auto split: if_splits)

lemma first_alternative_shorter:
  assumes "first_alternative ps prev s = Some (prev', rest)" and "[] \<notin> set ps"
  shows "length rest < length s"
  using assms
proof (induction ps)
  case Nil
  then show ?case by simp
next
  case (Cons p ps)
  show ?case
  proof (cases "match_alternative p prev s")
    case None
    with Cons show ?thesis by simp
  next
    case (Some r)
    with Cons.prems have "match_literal p prev s = Some (prev', rest)"
      by (auto simp: match_alternative_def split: if_splits option.splits)
    from match_literal_length [OF this] Cons.prems(2) show ?thesis
      by (cases p) auto
  qed
qed

function findall_pronouns :: "char option \<Rightarrow> string \<Rightarrow> string list" where
  "findall_pronouns prev [] = []"
| "findall_pronouns prev (c # cs) =
     (case first_alternative pronoun_alternatives prev (c # cs) of
        Some (prev', rest) \<Rightarrow>
          take (length (c # cs) - length rest) (c # cs) # findall_pronouns prev' rest
      | None \<Rightarrow> findall_pronouns (Some c) cs)"
  by pat_completeness auto
termination
proof (relation "measure (\<lambda>(prev, s). length s)")
  show "wf (measure (\<lambda>(prev, s). length s))" by simp
next
  fix prev :: "char option" and c cs x2 x y
  assume "first_alternative pronoun_alternatives prev (c # cs) = Some x2" and "(x, y) = x2"
  then have "first_alternative pronoun_alternatives prev (c # cs) = Some (x, y)" by simp
  then have "length y < length (c # cs)"
    by (rule first_alternative_shorter) (simp add: pronoun_alternatives_def)
  then show "((x, y), prev, c # cs) \<in> measure (\<lambda>(prev, s). length s)" by simp
next
  fix prev :: "char option" and c cs
  show "((Some c, cs), prev, c # cs) \<in> measure (\<lambda>(prev, s). length s)" by simp
qed

definition findall_vowels :: "string \<Rightarrow> string" where
  \<comment> \<open>\<open>re.findall(r'[aeiou]', word)\<close>: one match for each character of the class\<close>
  "findall_vowels word = [char \<leftarrow> word. is_vowel char]"

definition calculate_additional_scores ::
  "string list \<Rightarrow> py_error + (int \<times> int \<times> real \<times> real)" where
  "calculate_additional_scores words =
     (let syllable_count = (\<Sum>word \<leftarrow> words. int (length (findall_vowels word)));
          personal_pronouns = int (length (findall_pronouns None (str_join '' '' words)))
      in case (if words \<noteq> []
               then py_truediv (real_of_int (\<Sum>word \<leftarrow> words. int (length word)))
                      (real (length words))
               else Inr 0) of
           Inl e \<Rightarrow> Inl e
         | Inr avg_word_length \<Rightarrow>
             (case (if words \<noteq> []
                    then py_truediv (real_of_int syllable_count) (real (length words))
                    else Inr 0) of
                Inl e \<Rightarrow> Inl e
              | Inr avg_syllables_per_word \<Rightarrow>
                  Inr (syllable_count, personal_pronouns, avg_word_length,
                       avg_syllables_per_word)))"

text \<open>
  The count as the specification words it: the occurrences of the literals, ignoring
  case, as whole words of a text. A literal occurs as a whole word at a position when
  the text continues with it there and neither the character before the position nor
  the character after the occurrence is a word character. The occurrences are counted
  over all positions and all literals.
\<close>

definition delimited_occurrence :: "string \<Rightarrow> char option \<Rightarrow> string \<Rightarrow> bool" where
  "delimited_occurrence p prev s =
     (length p \<le> length s \<and> str_lower (take (length p) s) = str_lower p \<and>
      (case prev of None \<Rightarrow> True | Some b \<Rightarrow> \<not> is_word_char b) \<and>
      (case drop (length p) s of [] \<Rightarrow> True | a # as \<Rightarrow> \<not> is_word_char a))"

fun whole_word_occurrences :: "string list \<Rightarrow> char option \<Rightarrow> string \<Rightarrow> nat" where
  "whole_word_occurrences ps prev [] = 0"
| "whole_word_occurrences ps prev (c # cs) =
     length [p \<leftarrow> ps. delimited_occurrence p prev (c # cs)] +
     whole_word_occurrences ps (Some c) cs"

section \<open>Properties of the sentiment scorer\<close>

lemma sum_list_ones: "(\<Sum>x \<leftarrow> xs. (1::int)) = int (length xs)"
  by (induction xs) simp_all

lemma calculate_sentiment_scores_value:
  fixes words positive_words negative_words
  defines "p \<equiv> length [w \<leftarrow> words. w \<in> positive_words]"
      and "n \<equiv> length [w \<leftarrow> words. w \<in> negative_words]"
  shows "calculate_sentiment_scores words positive_words negative_words =
           Inr (int p, int n,
                (real p - real n) / (real p + real n + 1 / 1000000),
                (real p + real n) / (real (length words) + 1 / 1000000))"
proof -
  have "real p + real n + 1 / 1000000 \<noteq> 0"
    by (smt (verit) of_nat_0_le_iff divide_pos_pos zero_less_one zero_less_numeral)
  moreover have "real (length words) + 1 / 1000000 \<noteq> 0"
    by (smt (verit) of_nat_0_le_iff divide_pos_pos zero_less_one zero_less_numeral)
  ultimately show ?thesis
    by (simp add: calculate_sentiment_scores_def py_truediv_def sum_list_ones p_def n_def Let_def)
qed

lemma filter_disjoint_bound:
  "set xs \<inter> A \<inter> B = {} \<Longrightarrow>
     length [x \<leftarrow> xs. x \<in> A] + length [x \<leftarrow> xs. x \<in> B] \<le> length xs"
  by (induction xs) auto

lemma ratio_bounds:
  fixes a b e :: real
  assumes "0 \<le> a" "0 \<le> b" "0 < e"
  shows "- 1 \<le> (a - b) / (a + b + e)" and "(a - b) / (a + b + e) \<le> 1"
proof -
  have pos: "0 < a + b + e" using assms by linarith
  have "- (a + b + e) \<le> a - b" using assms by linarith
  then show "- 1 \<le> (a - b) / (a + b + e)" using pos by (simp add: pos_le_divide_eq)
  have "a - b \<le> a + b + e" using assms by linarith
  then show "(a - b) / (a + b + e) \<le> 1" using pos by (simp add: pos_divide_le_eq)
qed

lemma frac_bound:
  fixes s l e k :: real
  assumes "0 \<le> s" "s \<le> k * l" "0 \<le> l" "0 < e" "0 \<le> k"
  shows "0 \<le> s / (l + e)" and "s / (l + e) \<le> k"
proof -
  have pos: "0 < l + e" using assms by linarith
  show "0 \<le> s / (l + e)" using assms pos by simp
  have "k * l \<le> k * (l + e)" using assms by (simp add: mult_left_mono)
  then have "s \<le> k * (l + e)" using assms by linarith
  then show "s / (l + e) \<le> k" using pos by (simp add: pos_divide_le_eq)
qed

lemma sentiment_ranges_without_overlap:
  "\<exists>p n pol sub.
     calculate_sentiment_scores words positive_words negative_words = Inr (p, n, pol, sub) \<and>
     - 1 \<le> pol \<and> pol \<le> 1 \<and> 0 \<le> sub \<and>
     (set words \<inter> positive_words \<inter> negative_words = {} \<longrightarrow> sub \<le> 1)"
proof -
  define p where "p = length [w \<leftarrow> words. w \<in> positive_words]"
  define n where "n = length [w \<leftarrow> words. w \<in> negative_words]"
  define pol where "pol = (real p - real n) / (real p + real n + 1 / 1000000)"
  define sub where "sub = (real p + real n) / (real (length words) + 1 / 1000000)"
  have val: "calculate_sentiment_scores words positive_words negative_words =
      Inr (int p, int n, pol, sub)"
    unfolding p_def n_def pol_def sub_def by (rule calculate_sentiment_scores_value)
  have pol1: "- 1 \<le> pol" and pol2: "pol \<le> 1"
    unfolding pol_def using ratio_bounds [of "real p" "real n" "1 / 1000000"] by simp_all
  have sub0: "0 \<le> sub"
    unfolding sub_def by simp
  have sub1: "sub \<le> 1" if "set words \<inter> positive_words \<inter> negative_words = {}"
  proof -
    from that have "p + n \<le> length words"
      unfolding p_def n_def by (rule filter_disjoint_bound)
    then have "real p + real n \<le> 1 * real (length words)"
      by (metis of_nat_add of_nat_le_iff mult_1)
    then show ?thesis
      unfolding sub_def
      using frac_bound(2) [of "real p + real n" 1 "real (length words)" "1 / 1000000"]
      by simp
  qed
  show ?thesis
    using val pol1 pol2 sub0 sub1 by blast
qed

text \<open>
  C1: the subjectivity score does not stay in \<open>[0, 1]\<close>, the range that the claim and
  the docstring of \<open>calculate_sentiment_scores\<close> give it. The two counts are taken
  independently, so a word that is in both dictionaries is counted twice: the
  one-word list \<open>good\<close>, with \<open>good\<close> in the positive and in the negative set, has the
  counts 1 and 1, the polarity score 0 and the subjectivity score \<open>2 / (1 + 1e-6)\<close>,
  which is above 1.
\<close>

theorem subjectivity_above_one:
  "calculate_sentiment_scores [''good''] {''good''} {''good''} =
     Inr (1, 1, 0, 2000000 / 1000001) \<and>
   \<not> ((2000000 / 1000001 :: real) \<le> 1)"
  by (simp add: calculate_sentiment_scores_def py_truediv_def)

text \<open>
  C3: the sentiment scorer returns, without raising, the number of tokens of the list
  that are in the positive set, the number that are in the negative set,
  \<open>(pos - neg) / (pos + neg + 1e-6)\<close> and \<open>(pos + neg) / (len(words) + 1e-6)\<close>.
\<close>

theorem sentiment_scores_formula:
  "calculate_sentiment_scores words positive_words negative_words =
     Inr (int (length [w \<leftarrow> words. w \<in> positive_words]),
          int (length [w \<leftarrow> words. w \<in> negative_words]),
          (real (length [w \<leftarrow> words. w \<in> positive_words]) -
             real (length [w \<leftarrow> words. w \<in> negative_words])) /
          (real (length [w \<leftarrow> words. w \<in> positive_words]) +
             real (length [w \<leftarrow> words. w \<in> negative_words]) + 1 / 1000000),
          (real (length [w \<leftarrow> words. w \<in> positive_words]) +
             real (length [w \<leftarrow> words. w \<in> negative_words])) /
          (real (length words) + 1 / 1000000))"
  by (rule calculate_sentiment_scores_value)

section \<open>Properties of the readability scorer\<close>

lemma calculate_readability_scores_value:
  "calculate_readability_scores st wt text =
     (let nw = length (wt text); ns = length (st text);
          nc = length [word \<leftarrow> wt text. is_complex_word word];
          asl = (if ns = 0 then 0 else real nw / real ns);
          pcw = (if nw = 0 then 0 else real nc / real nw)
      in Inr (asl, pcw, 4 / 10 * (asl + pcw), int nc, int nw))"
  by (simp add: calculate_readability_scores_def py_truediv_def Let_def)

lemma readability_counts:
  "\<exists>asl pcw fog.
     calculate_readability_scores st wt text =
       Inr (asl, pcw, fog, int (length [word \<leftarrow> wt text. is_complex_word word]),
            int (length (wt text)))"
  unfolding calculate_readability_scores_value Let_def by blast

text \<open>
  C2: the readability scorer counts the characters of a word that are in \<open>'aeiou'\<close>,
  on the raw text, so an uppercase vowel is not counted. The word \<open>Area\<close> has three
  vowels when case is ignored, and the scorer does not classify it as complex: on a
  text whose only word and only sentence is \<open>Area\<close> the complex word count is 0.
\<close>

theorem uppercase_vowels_not_counted:
  "calculate_readability_scores (\<lambda>t. [t]) (\<lambda>t. [t]) ''Area'' = Inr (1, 0, 4 / 10, 0, 1) \<and>
   length [c \<leftarrow> ''Area''. char_lower c \<in> set ''aeiou''] = 3 \<and>
   is_complex_word ''Area'' = False \<and> is_complex_word ''area'' = True"
proof -
  have "length [c \<leftarrow> ''Area''. char_lower c \<in> set ''aeiou''] = 3"
    by code_simp
  then show ?thesis
    by (simp add: calculate_readability_scores_def py_truediv_def is_complex_word_def
        is_vowel_def)
qed

text \<open>
  C9: the positive and the negative score are non-negative and at most the length of
  the word list; the complex word count is non-negative and at most the word count,
  which is non-negative.
\<close>

theorem count_bounds:
  "(\<exists>p n pol sub.
      calculate_sentiment_scores words positive_words negative_words = Inr (p, n, pol, sub) \<and>
      0 \<le> p \<and> p \<le> int (length words) \<and> 0 \<le> n \<and> n \<le> int (length words)) \<and>
   (\<exists>asl pcw fog cwc wc.
      calculate_readability_scores st wt text = Inr (asl, pcw, fog, cwc, wc) \<and>
      0 \<le> cwc \<and> cwc \<le> wc \<and> 0 \<le> wc)"
proof
  show "\<exists>p n pol sub.
      calculate_sentiment_scores words positive_words negative_words = Inr (p, n, pol, sub) \<and>
      0 \<le> p \<and> p \<le> int (length words) \<and> 0 \<le> n \<and> n \<le> int (length words)"
    unfolding calculate_sentiment_scores_value by simp
  obtain asl pcw fog where
    "calculate_readability_scores st wt text =
       Inr (asl, pcw, fog, int (length [word \<leftarrow> wt text. is_complex_word word]),
            int (length (wt text)))"
    using readability_counts by blast
  moreover have "int (length [word \<leftarrow> wt text. is_complex_word word]) \<le> int (length (wt text))"
    by simp
  ultimately show "\<exists>asl pcw fog cwc wc.
      calculate_readability_scores st wt text = Inr (asl, pcw, fog, cwc, wc) \<and>
      0 \<le> cwc \<and> cwc \<le> wc \<and> 0 \<le> wc"
    by (metis of_nat_0_le_iff)
qed

section \<open>Properties of the lexical statistics\<close>

lemma sum_list_filter_length:
  "(\<Sum>word \<leftarrow> words. int (length (filter P word))) = int (length (filter P (concat words)))"
  by (induction words) simp_all

lemma sum_list_length_concat:
  "(\<Sum>word \<leftarrow> words. int (length word)) = int (length (concat words))"
  by (induction words) simp_all

lemma calculate_additional_scores_value:
  "calculate_additional_scores words =
     Inr (int (length [c \<leftarrow> concat words. is_vowel c]),
          int (length (findall_pronouns None (str_join '' '' words))),
          (if words = [] then 0 else real (length (concat words)) / real (length words)),
          (if words = [] then 0
           else real (length [c \<leftarrow> concat words. is_vowel c]) / real (length words)))"
  by (simp add: calculate_additional_scores_def py_truediv_def findall_vowels_def
      sum_list_filter_length sum_list_length_concat Let_def)

text \<open>
  C8: on a text with no sentence and no word the readability scorer returns
  \<open>(0, 0, 0, 0, 0)\<close>, and the lexical statistics of the empty word list are
  \<open>(0, 0, 0, 0)\<close>; neither raises.
\<close>

theorem empty_input_scores:
  assumes "st text = []" and "wt text = []"
  shows "calculate_readability_scores st wt text = Inr (0, 0, 0, 0, 0) \<and>
         calculate_additional_scores [] = Inr (0, 0, 0, 0)"
  using assms by (simp add: calculate_readability_scores_def calculate_additional_scores_def)

theorem empty_input_scores_witness:
  "space_tokenize '''' = [] \<and>
   calculate_readability_scores space_tokenize space_tokenize '''' = Inr (0, 0, 0, 0, 0) \<and>
   calculate_additional_scores [] = Inr (0, 0, 0, 0)"
proof -
  have h: "space_tokenize '''' = []" by (simp add: space_tokenize_def)
  show ?thesis
    using h empty_input_scores [of space_tokenize "[]" space_tokenize] by simp
qed

text \<open>
  C7, as stated, fails on its example: the word \<open>beautiful\<close> has five vowel
  characters (e, a, u, i, u), and the syllable count is 5, not 4.
\<close>

theorem beautiful_has_five_vowels:
  "calculate_additional_scores [''beautiful''] = Inr (5, 0, 9, 5) \<and> (5::int) \<noteq> 4"
  by code_simp

text \<open>
  C7 (amended): for every word list the syllable count is the number of characters
  of its words that are one of a, e, i, o, u, every occurrence counted; the single
  word \<open>beautiful\<close> yields 5.
\<close>

theorem syllable_count_is_vowel_count:
  "(\<exists>pp awl asw.
      calculate_additional_scores words =
        Inr (int (length [c \<leftarrow> concat words. c \<in> set ''aeiou'']), pp, awl, asw)) \<and>
   (\<exists>pp awl asw. calculate_additional_scores [''beautiful''] = Inr (5, pp, awl, asw))"
proof
  show "\<exists>pp awl asw.
      calculate_additional_scores words =
        Inr (int (length [c \<leftarrow> concat words. c \<in> set ''aeiou'']), pp, awl, asw)"
    unfolding calculate_additional_scores_value is_vowel_def by blast
  show "\<exists>pp awl asw. calculate_additional_scores [''beautiful''] = Inr (5, pp, awl, asw)"
    unfolding calculate_additional_scores_value by (simp add: is_vowel_def)
qed

section \<open>Properties of the cleaner\<close>

lemma of_char_char_lower:
  assumes "char_isupper c"
  shows "(of_char (char_lower c) :: nat) = of_char c + 32"
proof -
  from assms have "(of_char c :: nat) + 32 < 256"
    unfolding char_isupper_def Let_def by linarith
  then have "(of_char (char_of ((of_char c :: nat) + 32)) :: nat) = of_char c + 32"
    by (simp only: of_char_of mod_less)
  with assms show ?thesis
    by (simp only: char_lower_def if_True)
qed

lemma char_lower_not_upper: "\<not> char_isupper (char_lower c)"
proof (cases "char_isupper c")
  case True
  have "char_isupper (char_lower c) =
      (let n = (of_char c :: nat) + 32
       in (65 \<le> n \<and> n \<le> 90) \<or> (192 \<le> n \<and> n \<le> 214) \<or> (216 \<le> n \<and> n \<le> 222))"
    unfolding char_isupper_def [of "char_lower c"] of_char_char_lower [OF True] ..
  with True show ?thesis
    unfolding char_isupper_def Let_def by linarith
next
  case False
  then show ?thesis by (simp add: char_lower_def)
qed

text \<open>
  C4: the output of \<open>clean_and_tokenize\<close> is the list of the tokens of the lower-cased
  text that are alphabetic (\<open>str.isalpha\<close>: not empty, every character a letter) and
  not in the stop-word set: a token is in the output if and only if it is such a
  token, and the output is a subsequence of the token list, so the surviving tokens
  keep their order.
\<close>

theorem clean_keeps_alphabetic_non_stop_words:
  "clean_and_tokenize wt text sw =
     [w \<leftarrow> wt (str_lower text). w \<noteq> [] \<and> list_all char_isalpha w \<and> w \<notin> sw] \<and>
   (\<forall>w. w \<in> set (clean_and_tokenize wt text sw) \<longleftrightarrow>
        (w \<in> set (wt (str_lower text)) \<and> w \<noteq> [] \<and> list_all char_isalpha w \<and> w \<notin> sw)) \<and>
   subseq (clean_and_tokenize wt text sw) (wt (str_lower text))"
  by (auto simp: clean_and_tokenize_def str_isalpha_def conj_assoc)

subsection \<open>Stop-word entries and case\<close>

lemma clean_and_tokenize_instance:
  "clean_and_tokenize wt text sw = clean_and_tokenize_with str_lower str_isalpha wt text sw"
  by (simp add: clean_and_tokenize_def clean_and_tokenize_with_def)

text \<open>
  C10, as stated, fails: a stop-word entry with an uppercase letter removes a token
  when \<open>str.lower\<close> leaves that letter unchanged. The text that is the one letter
  U+03D2 is its own lower-casing and is one alphabetic token. With the stop-word set
  that holds this one entry the cleaner returns no word; the entry has an uppercase
  letter, so the all-lowercase entries of the set are none, and with no stop word the
  cleaner returns the token.
\<close>

theorem uppercase_stop_word_removes_token:
  "list_ex cp_isupper [Upsilon_hook] \<and>
   {e \<in> {[Upsilon_hook]}. \<not> list_ex cp_isupper e} = {} \<and>
   clean_and_tokenize_with ustr_lower ustr_isalpha uspace_tokenize
     [Upsilon_hook] {[Upsilon_hook]} = [] \<and>
   clean_and_tokenize_with ustr_lower ustr_isalpha uspace_tokenize
     [Upsilon_hook] {} = [[Upsilon_hook]]"
  by (simp add: clean_and_tokenize_with_def ustr_lower_def ustr_isalpha_def
      uspace_tokenize_def)

text \<open>
  C10 (amended): the tokens are taken from the lower-cased text and compared with the
  stop-word entries by equality, so a stop-word entry that lower-casing changes
  removes nothing: cleaning with a stop-word set equals cleaning with its entries
  that are their own lower-casing, and adding an entry that lower-casing changes
  changes nothing. The library functions are parameters; the hypotheses are that
  lower-casing a lower-cased text changes nothing, and that the tokens of a text that
  is its own lower-casing are their own lower-casing.
\<close>

theorem stop_words_changed_by_lower_are_inert:
  assumes lower_idem: "\<forall>t. lower (lower t) = lower t"
    and keeps_lowered: "\<forall>t. lower t = t \<longrightarrow> (\<forall>w \<in> set (wt t). lower w = w)"
  shows "clean_and_tokenize_with lower isalpha wt text sw =
           clean_and_tokenize_with lower isalpha wt text {e \<in> sw. lower e = e} \<and>
         (\<forall>e. lower e \<noteq> e \<longrightarrow>
              clean_and_tokenize_with lower isalpha wt text (insert e sw) =
              clean_and_tokenize_with lower isalpha wt text sw)"
proof -
  have low: "lower w = w" if "w \<in> set (wt (lower text))" for w
    using lower_idem keeps_lowered that by blast
  have eq: "clean_and_tokenize_with lower isalpha wt text A =
      clean_and_tokenize_with lower isalpha wt text B"
    if "\<And>w. lower w = w \<Longrightarrow> w \<in> A \<longleftrightarrow> w \<in> B" for A B
    unfolding clean_and_tokenize_with_def Let_def
    using low that by (intro filter_cong refl) auto
  have "clean_and_tokenize_with lower isalpha wt text sw =
           clean_and_tokenize_with lower isalpha wt text {e \<in> sw. lower e = e}"
    by (rule eq) simp
  moreover have "clean_and_tokenize_with lower isalpha wt text (insert e sw) =
      clean_and_tokenize_with lower isalpha wt text sw"
    if "lower e \<noteq> e" for e
    by (rule eq) (use that in auto)
  ultimately show ?thesis by blast
qed

subsection \<open>The hypotheses on the alphabet with U+03D2 and the space tokenizer\<close>

lemma cp_lower_idem: "cp_lower (cp_lower c) = cp_lower c"
proof (cases c)
  case (Latin1 a)
  have "char_lower (char_lower a) = char_lower a"
    unfolding char_lower_def [of "char_lower a"] using char_lower_not_upper [of a] by simp
  with Latin1 show ?thesis by simp
next
  case Upsilon_hook
  then show ?thesis by simp
qed

lemma ustr_lower_idem: "ustr_lower (ustr_lower t) = ustr_lower t"
  by (simp add: ustr_lower_def cp_lower_idem)

lemma ustr_lower_fixed: "ustr_lower s = s \<longleftrightarrow> (\<forall>c \<in> set s. cp_lower c = c)"
  by (induction s) (auto simp: ustr_lower_def)

lemma usplit_words_chars:
  "w \<in> set (usplit_words cur s) \<Longrightarrow> x \<in> set w \<Longrightarrow> x \<in> set cur \<union> set s"
  by (induction s arbitrary: cur) (fastforce split: if_splits)+

lemma uspace_tokenize_keeps_lowered:
  assumes "ustr_lower t = t" and "w \<in> set (uspace_tokenize t)"
  shows "ustr_lower w = w"
  using assms usplit_words_chars [of w "[]" t]
  by (fastforce simp: uspace_tokenize_def ustr_lower_fixed)

text \<open>
  The text \<open>The\<close> U+03D2 \<open>Cat sat on the mat\<close>: the entries \<open>Cat\<close> and \<open>MAT\<close> remove
  nothing, and the entries that are their own lower-casing are \<open>the\<close>, \<open>on\<close> and the
  letter U+03D2.
\<close>

theorem stop_words_changed_by_lower_are_inert_witness:
  "clean_and_tokenize_with ustr_lower ustr_isalpha uspace_tokenize
     (ustr ''The '' @ [Upsilon_hook] @ ustr '' Cat sat on the mat'')
     {ustr ''the'', ustr ''on'', ustr ''Cat'', ustr ''MAT'', [Upsilon_hook]} =
   clean_and_tokenize_with ustr_lower ustr_isalpha uspace_tokenize
     (ustr ''The '' @ [Upsilon_hook] @ ustr '' Cat sat on the mat'')
     {ustr ''the'', ustr ''on'', [Upsilon_hook]} \<and>
   clean_and_tokenize_with ustr_lower ustr_isalpha uspace_tokenize
     (ustr ''The '' @ [Upsilon_hook] @ ustr '' Cat sat on the mat'')
     {ustr ''the'', ustr ''on'', [Upsilon_hook]} = [ustr ''cat'', ustr ''sat'', ustr ''mat'']"
proof -
  have v: "clean_and_tokenize_with ustr_lower ustr_isalpha uspace_tokenize
     (ustr ''The '' @ [Upsilon_hook] @ ustr '' Cat sat on the mat'')
     {ustr ''the'', ustr ''on'', [Upsilon_hook]} = [ustr ''cat'', ustr ''sat'', ustr ''mat'']"
    by code_simp
  have f1: "ustr_lower (ustr ''the'') = ustr ''the''" by code_simp
  have f2: "ustr_lower (ustr ''on'') = ustr ''on''" by code_simp
  have f3: "ustr_lower (ustr ''Cat'') \<noteq> ustr ''Cat''" by code_simp
  have f4: "ustr_lower (ustr ''MAT'') \<noteq> ustr ''MAT''" by code_simp
  have f5: "ustr_lower [Upsilon_hook] = [Upsilon_hook]" by code_simp
  have s: "{e \<in> {ustr ''the'', ustr ''on'', ustr ''Cat'', ustr ''MAT'', [Upsilon_hook]}.
      ustr_lower e = e} = {ustr ''the'', ustr ''on'', [Upsilon_hook]}"
    using f1 f2 f3 f4 f5 by auto
  have i: "\<forall>t. ustr_lower (ustr_lower t) = ustr_lower t"
    by (simp add: ustr_lower_idem)
  have k: "\<forall>t. ustr_lower t = t \<longrightarrow> (\<forall>w \<in> set (uspace_tokenize t). ustr_lower w = w)"
    by (simp add: uspace_tokenize_keeps_lowered)
  have "clean_and_tokenize_with ustr_lower ustr_isalpha uspace_tokenize
     (ustr ''The '' @ [Upsilon_hook] @ ustr '' Cat sat on the mat'')
     {ustr ''the'', ustr ''on'', ustr ''Cat'', ustr ''MAT'', [Upsilon_hook]} =
   clean_and_tokenize_with ustr_lower ustr_isalpha uspace_tokenize
     (ustr ''The '' @ [Upsilon_hook] @ ustr '' Cat sat on the mat'')
     {e \<in> {ustr ''the'', ustr ''on'', ustr ''Cat'', ustr ''MAT'', [Upsilon_hook]}.
        ustr_lower e = e}"
    using stop_words_changed_by_lower_are_inert [OF i k] by blast
  then show ?thesis
    unfolding s using v by (rule conjI)
qed

section \<open>The personal pronoun count\<close>

lemma upper_is_alpha: "char_isupper c \<Longrightarrow> char_isalpha c"
  unfolding char_isupper_def char_isalpha_def Let_def by linarith

lemma lower_of_upper_is_alpha: "char_isupper c \<Longrightarrow> char_isalpha (char_lower c)"
proof -
  assume u: "char_isupper c"
  have "char_isalpha (char_lower c) =
      (let n = (of_char c :: nat) + 32
       in (65 \<le> n \<and> n \<le> 90) \<or> (97 \<le> n \<and> n \<le> 122) \<or> n = 170 \<or> n = 181 \<or> n = 186 \<or>
          (192 \<le> n \<and> n \<le> 214) \<or> (216 \<le> n \<and> n \<le> 246) \<or> (248 \<le> n \<and> n \<le> 255))"
    unfolding char_isalpha_def [of "char_lower c"] of_char_char_lower [OF u] ..
  with u show ?thesis
    unfolding char_isupper_def Let_def by linarith
qed

lemma alpha_is_word: "char_isalpha c \<Longrightarrow> is_word_char c"
  by (simp add: is_word_char_def Let_def)

lemma char_lower_inj_upper:
  assumes c: "char_isupper c" and d: "char_isupper d" and e: "char_lower c = char_lower d"
  shows "c = d"
proof -
  have "(of_char c :: nat) + 32 = of_char (char_lower c)"
    by (rule of_char_char_lower [OF c, symmetric])
  also have "\<dots> = of_char (char_lower d)"
    by (simp only: e)
  also have "\<dots> = (of_char d :: nat) + 32"
    by (rule of_char_char_lower [OF d])
  finally have "(of_char c :: nat) = of_char d"
    by (simp only: add_right_cancel)
  then show "c = d"
    by (simp only: of_char_eq_iff)
qed

lemma ignorecase_word_char:
  assumes "char_lower c = char_lower d"
  shows "is_word_char c = is_word_char d"
proof (cases "char_isupper c")
  case c: True
  show ?thesis
  proof (cases "char_isupper d")
    case True
    from char_lower_inj_upper [OF c True assms] show ?thesis by simp
  next
    case False
    then have "d = char_lower c" using assms by (simp add: char_lower_def)
    then show ?thesis
      using c by (simp add: alpha_is_word upper_is_alpha lower_of_upper_is_alpha)
  qed
next
  case c: False
  show ?thesis
  proof (cases "char_isupper d")
    case True
    from c have "c = char_lower d" using assms by (simp add: char_lower_def)
    then show ?thesis
      using True by (simp add: alpha_is_word upper_is_alpha lower_of_upper_is_alpha)
  next
    case False
    with c assms show ?thesis by (simp add: char_lower_def)
  qed
qed

lemma match_literal_iff:
  "match_literal p prev s = Some (prev', rest) \<longleftrightarrow>
     (length p \<le> length s \<and> map char_lower (take (length p) s) = map char_lower p \<and>
      rest = drop (length p) s \<and>
      prev' = (if p = [] then prev else Some (last (take (length p) s))))"
proof (induction p prev s rule: match_literal.induct)
  case (1 prev s)
  then show ?case by auto
next
  case (2 p ps prev)
  then show ?case by simp
next
  case (3 p ps prev c cs)
  show ?case
  proof (cases "char_lower c = char_lower p")
    case True
    then show ?thesis using 3 by (cases ps) auto
  next
    case False
    then show ?thesis by simp
  qed
qed

lemma pronoun_letters_are_word_chars:
  "p \<in> set pronoun_alternatives \<Longrightarrow> c \<in> set p \<Longrightarrow> is_word_char c"
  by (auto simp: pronoun_alternatives_def is_word_char_def char_isalpha_def)

lemma pronoun_alternatives_nonempty: "p \<in> set pronoun_alternatives \<Longrightarrow> p \<noteq> []"
  by (auto simp: pronoun_alternatives_def)

lemma pronoun_alternatives_distinct_lower:
  "p \<in> set pronoun_alternatives \<Longrightarrow> q \<in> set pronoun_alternatives \<Longrightarrow>
     length p = length q \<Longrightarrow> p \<noteq> q \<Longrightarrow> str_lower p \<noteq> str_lower q"
  by (auto simp: pronoun_alternatives_def str_lower_def char_lower_def char_isupper_def)

text \<open>The characters of a text that match a literal of word characters are word characters.\<close>

lemma matched_chars_are_word_chars:
  assumes "map char_lower (take (length p) s) = map char_lower p"
    and "length p \<le> length s" and "\<forall>c \<in> set p. is_word_char c" and "i < length p"
  shows "is_word_char (s ! i)"
proof -
  from assms(1) have "map char_lower (take (length p) s) ! i = map char_lower p ! i"
    by simp
  with assms(2,4) have "char_lower (s ! i) = char_lower (p ! i)"
    by simp
  then have "is_word_char (s ! i) = is_word_char (p ! i)"
    by (rule ignorecase_word_char)
  with assms(3,4) show ?thesis by simp
qed

lemma match_alternative_iff:
  assumes p: "p \<in> set pronoun_alternatives"
  shows "match_alternative p prev s = Some (prev', rest) \<longleftrightarrow>
     (delimited_occurrence p prev s \<and> rest = drop (length p) s \<and>
      prev' = Some (last (take (length p) s)))"
proof (cases "length p \<le> length s \<and> map char_lower (take (length p) s) = map char_lower p")
  case False
  then have "match_literal p prev s = None"
    using match_literal_iff [of p prev s] by (cases "match_literal p prev s") auto
  with False show ?thesis
    by (auto simp: match_alternative_def delimited_occurrence_def str_lower_def)
next
  case True
  have ne: "p \<noteq> []"
    using p by (rule pronoun_alternatives_nonempty)
  have w: "\<forall>c \<in> set p. is_word_char c"
    using p pronoun_letters_are_word_chars by blast
  from ne True obtain c cs where s: "s = c # cs"
    by (cases s) auto
  have "is_word_char (s ! 0)"
    using True w ne by (intro matched_chars_are_word_chars [of p s 0]) auto
  then have first: "is_word_char c"
    by (simp add: s)
  have "take (length p) s \<noteq> []"
    using ne s by simp
  then have "last (take (length p) s) = take (length p) s ! (length (take (length p) s) - 1)"
    by (rule last_conv_nth)
  also have "\<dots> = s ! (length p - 1)"
    using True ne by (simp add: min_absorb2)
  finally have "last (take (length p) s) = s ! (length p - 1)" .
  moreover have "is_word_char (s ! (length p - 1))"
    using True w ne by (intro matched_chars_are_word_chars [of p s "length p - 1"]) auto
  ultimately have lastw: "is_word_char (last (take (length p) s))"
    by simp
  have lit: "match_literal p prev s = Some (Some (last (take (length p) s)), drop (length p) s)"
    using True ne by (simp add: match_literal_iff)
  have b1: "word_boundary prev s = (case prev of None \<Rightarrow> True | Some b \<Rightarrow> \<not> is_word_char b)"
    using first by (simp add: word_boundary_def s split: option.split)
  have b2: "word_boundary (Some (last (take (length p) s))) (drop (length p) s) =
      (case drop (length p) s of [] \<Rightarrow> True | a # as \<Rightarrow> \<not> is_word_char a)"
    using lastw by (simp add: word_boundary_def split: list.split)
  show ?thesis
    unfolding match_alternative_def delimited_occurrence_def str_lower_def
    using True lit b1 b2 by auto
qed

lemma longer_excludes_shorter:
  assumes "delimited_occurrence p prev s" and "delimited_occurrence q prev s"
    and "length p < length q" and "\<forall>c \<in> set q. is_word_char c"
  shows False
proof -
  from assms(2) have q: "length q \<le> length s"
      "map char_lower (take (length q) s) = map char_lower q"
    by (simp_all add: delimited_occurrence_def str_lower_def)
  have "is_word_char (s ! length p)"
    using q assms(3,4) by (intro matched_chars_are_word_chars [of q s "length p"]) auto
  moreover have "length p < length s"
    using q assms(3) by simp
  then have "drop (length p) s = s ! length p # drop (Suc (length p)) s"
    by (simp add: Cons_nth_drop_Suc)
  ultimately show False
    using assms(1) by (simp add: delimited_occurrence_def)
qed

lemma delimited_occurrence_unique:
  assumes p: "p \<in> set pronoun_alternatives" and q: "q \<in> set pronoun_alternatives"
    and dp: "delimited_occurrence p prev s" and dq: "delimited_occurrence q prev s"
  shows "p = q"
proof (rule ccontr)
  assume neq: "p \<noteq> q"
  have wp: "\<forall>c \<in> set p. is_word_char c" and wq: "\<forall>c \<in> set q. is_word_char c"
    using p q pronoun_letters_are_word_chars by blast+
  consider "length p < length q" | "length q < length p" | "length p = length q"
    by linarith
  then show False
  proof cases
    case 1
    show False using longer_excludes_shorter [OF dp dq 1 wq] .
  next
    case 2
    show False using longer_excludes_shorter [OF dq dp 2 wp] .
  next
    case 3
    from dp dq 3 have "str_lower p = str_lower q"
      by (simp add: delimited_occurrence_def)
    with pronoun_alternatives_distinct_lower [OF p q 3 neq] show False by simp
  qed
qed

lemma first_alternative_None:
  "first_alternative ps prev s = None \<longleftrightarrow> (\<forall>p \<in> set ps. match_alternative p prev s = None)"
  by (induction ps) (auto split: option.splits)

lemma first_alternative_Some:
  "first_alternative ps prev s = Some r \<Longrightarrow> \<exists>p \<in> set ps. match_alternative p prev s = Some r"
  by (induction ps) (auto split: option.splits)

lemma filter_at_most_one:
  assumes "distinct xs" and "\<And>x y. x \<in> set xs \<Longrightarrow> y \<in> set xs \<Longrightarrow> P x \<Longrightarrow> P y \<Longrightarrow> x = y"
  shows "length (filter P xs) \<le> 1"
  using assms
proof (induction xs)
  case Nil
  then show ?case by simp
next
  case (Cons x xs)
  show ?case
  proof (cases "P x")
    case True
    have "filter P xs = []"
    proof (rule ccontr)
      assume "filter P xs \<noteq> []"
      then obtain y where "y \<in> set xs" "P y"
        by (metis filter_False)
      with Cons.prems(2) [of x y] True have "x = y" by simp
      with \<open>y \<in> set xs\<close> Cons.prems(1) show False by simp
    qed
    with True show ?thesis by simp
  next
    case False
    with Cons show ?thesis by simp
  qed
qed

lemma occurrences_here:
  "length [p \<leftarrow> pronoun_alternatives. delimited_occurrence p prev s] =
     (case first_alternative pronoun_alternatives prev s of None \<Rightarrow> 0 | Some r \<Rightarrow> 1)"
proof (cases "first_alternative pronoun_alternatives prev s")
  case None
  then have "\<forall>p \<in> set pronoun_alternatives. \<not> delimited_occurrence p prev s"
    using match_alternative_iff [of _ prev s] by (auto simp: first_alternative_None)
  then have "[p \<leftarrow> pronoun_alternatives. delimited_occurrence p prev s] = []"
    by (simp add: filter_empty_conv)
  with None show ?thesis by simp
next
  case (Some r)
  obtain prev' rest where r: "r = (prev', rest)" by (cases r)
  from first_alternative_Some [OF Some] obtain p where
    p: "p \<in> set pronoun_alternatives" and "match_alternative p prev s = Some (prev', rest)"
    unfolding r by blast
  then have "delimited_occurrence p prev s"
    by (simp add: match_alternative_iff)
  with p have "[p \<leftarrow> pronoun_alternatives. delimited_occurrence p prev s] \<noteq> []"
    by (auto simp: filter_empty_conv)
  then have "1 \<le> length [p \<leftarrow> pronoun_alternatives. delimited_occurrence p prev s]"
    by (simp add: Suc_le_eq)
  moreover have "distinct pronoun_alternatives"
    by (simp add: pronoun_alternatives_def)
  then have "length [p \<leftarrow> pronoun_alternatives. delimited_occurrence p prev s] \<le> 1"
    by (rule filter_at_most_one) (rule delimited_occurrence_unique)
  ultimately show ?thesis
    using Some by simp
qed

lemma no_occurrence_inside_a_word:
  assumes "is_word_char b" and "list_all is_word_char u"
  shows "whole_word_occurrences ps (Some b) (u @ rest) =
         whole_word_occurrences ps (Some (last (b # u))) rest"
  using assms
proof (induction u arbitrary: b)
  case Nil
  then show ?case by simp
next
  case (Cons a u)
  from Cons.prems(1) have "[p \<leftarrow> ps. delimited_occurrence p (Some b) (a # u @ rest)] = []"
    by (simp add: filter_empty_conv delimited_occurrence_def)
  moreover from Cons.prems(2) have "is_word_char a" "list_all is_word_char u"
    by simp_all
  ultimately show ?case
    using Cons.IH [of a] by simp
qed

lemma matched_prefix_word_chars:
  assumes "delimited_occurrence p prev s" and "\<forall>c \<in> set p. is_word_char c"
  shows "list_all is_word_char (take (length p) s)"
proof -
  from assms(1) have len: "length p \<le> length s"
    and eq: "map char_lower (take (length p) s) = map char_lower p"
    by (simp_all add: delimited_occurrence_def str_lower_def)
  have "is_word_char (take (length p) s ! i)" if "i < length (take (length p) s)" for i
  proof -
    from that len have i: "i < length p" by simp
    then have "is_word_char (s ! i)"
      using eq len assms(2) by (intro matched_chars_are_word_chars [of p s i]) auto
    with i show ?thesis by simp
  qed
  then show ?thesis
    by (simp only: list_all_length) blast
qed

lemma findall_pronouns_count:
  "length (findall_pronouns prev s) = whole_word_occurrences pronoun_alternatives prev s"
proof (induction prev s rule: findall_pronouns.induct)
  case (1 prev)
  show ?case by simp
next
  case (2 prev c cs)
  show ?case
  proof (cases "first_alternative pronoun_alternatives prev (c # cs)")
    case None
    have "length (findall_pronouns (Some c) cs) =
        whole_word_occurrences pronoun_alternatives (Some c) cs"
      using None by (rule "2.IH"(1))
    moreover have "length [p \<leftarrow> pronoun_alternatives. delimited_occurrence p prev (c # cs)] = 0"
      using occurrences_here [of prev "c # cs"] None by simp
    ultimately show ?thesis
      using None by simp
  next
    case (Some r)
    obtain prev' rest where r: "r = (prev', rest)" by (cases r)
    have IH: "length (findall_pronouns prev' rest) =
        whole_word_occurrences pronoun_alternatives prev' rest"
      using Some r by (intro "2.IH"(2) [of r prev' rest]) simp_all
    from first_alternative_Some [OF Some] obtain p where
      p: "p \<in> set pronoun_alternatives"
      and m: "match_alternative p prev (c # cs) = Some (prev', rest)"
      unfolding r by blast
    from m p have d: "delimited_occurrence p prev (c # cs)"
      and rest: "rest = drop (length p) (c # cs)"
      and prev': "prev' = Some (last (take (length p) (c # cs)))"
      by (simp_all add: match_alternative_iff)
    have w: "\<forall>c \<in> set p. is_word_char c"
      using p pronoun_letters_are_word_chars by blast
    have ne: "p \<noteq> []"
      using p by (rule pronoun_alternatives_nonempty)
    define u where "u = take (length p - 1) cs"
    from ne have tk: "take (length p) (c # cs) = c # u"
      by (cases p) (simp_all add: u_def)
    from ne have cs: "cs = u @ rest"
      by (cases p) (simp_all add: u_def rest)
    from matched_prefix_word_chars [OF d w] have wc: "is_word_char c" and wu: "list_all is_word_char u"
      by (simp_all add: tk)
    have "whole_word_occurrences pronoun_alternatives (Some c) (u @ rest) =
        whole_word_occurrences pronoun_alternatives (Some (last (c # u))) rest"
      using wc wu by (rule no_occurrence_inside_a_word)
    then have skip: "whole_word_occurrences pronoun_alternatives (Some c) cs =
        whole_word_occurrences pronoun_alternatives prev' rest"
      by (simp only: prev' tk flip: cs)
    have "length [p \<leftarrow> pronoun_alternatives. delimited_occurrence p prev (c # cs)] = 1"
      using occurrences_here [of prev "c # cs"] Some by simp
    then have "whole_word_occurrences pronoun_alternatives prev (c # cs) =
        1 + whole_word_occurrences pronoun_alternatives prev' rest"
      using skip by simp
    moreover have "length (findall_pronouns prev (c # cs)) = 1 + length (findall_pronouns prev' rest)"
      using Some r by simp
    ultimately show ?thesis
      using IH by simp
  qed
qed

text \<open>
  C6: for every word list the personal pronoun count is the number of whole-word
  occurrences, ignoring case, of the literals I, we, my, ours, us in the words joined
  by single spaces; a pronoun inside a longer word is not such an occurrence: the
  words i, love, us, and, myself give the count 2.
\<close>

theorem personal_pronoun_count:
  "(\<exists>sc awl asw.
      calculate_additional_scores words =
        Inr (sc, int (whole_word_occurrences pronoun_alternatives None (str_join '' '' words)),
             awl, asw)) \<and>
   (\<exists>sc awl asw.
      calculate_additional_scores [''i'', ''love'', ''us'', ''and'', ''myself''] =
        Inr (sc, 2, awl, asw))"
proof
  show "\<exists>sc awl asw.
      calculate_additional_scores words =
        Inr (sc, int (whole_word_occurrences pronoun_alternatives None (str_join '' '' words)),
             awl, asw)"
    unfolding calculate_additional_scores_value findall_pronouns_count by blast
  have "calculate_additional_scores [''i'', ''love'', ''us'', ''and'', ''myself''] =
      Inr (6, 2, 16 / 5, 6 / 5)"
    by code_simp
  then show "\<exists>sc awl asw.
      calculate_additional_scores [''i'', ''love'', ''us'', ''and'', ''myself''] =
        Inr (sc, 2, awl, asw)"
    by blast
qed

end
